theory Spec2Isabelle
  imports Main "HOL-Library.Word"
begin

unbundle bit_operations_syntax

section \<open>Bytes, paths and the local file system\<close>

type_synonym byte = "8 word"
type_synonym bytes = "byte list"
type_synonym u32 = "32 word"

text \<open>
  A \<open>pathlib.Path\<close> is kept as the list of its parts; \<open>Path(root) / fname\<close> appends a
  part. The local file system is a tree. A regular file holds its bytes; \<open>NoAccess\<close> is a
  regular file that \<open>open\<close> refuses (permission denied); a directory lists its entries in
  the order \<open>os.scandir\<close> returns them.
\<close>

type_synonym path = "string list"

datatype fsnode = File bytes | NoAccess | Dir "(string \<times> fsnode) list"

text \<open>Every \<open>raise\<close> and \<open>sys.exit\<close> of the program is a value of this type.\<close>

datatype error =
    OSError path                     \<comment> \<open>\<open>open(path, "rb")\<close> failed\<close>
  | CalledProcessError "string list" \<comment> \<open>\<open>subprocess.run(cmd, check=True)\<close>, non-zero exit\<close>
  | SystemExit int                   \<comment> \<open>\<open>sys.exit(code)\<close>\<close>
  | ValueError                       \<comment> \<open>\<open>ThreadPoolExecutor(max_workers \<le> 0)\<close>\<close>

text \<open>What the program does to the outside: lines printed and commands run.\<close>

datatype event =
    Print string             \<comment> \<open>\<open>print(s)\<close> of a string\<close>
  | PrintList "string list"  \<comment> \<open>\<open>print(cmd)\<close> of a list of strings\<close>
  | Run "string list"        \<comment> \<open>\<open>subprocess.run(cmd, ...)\<close>\<close>

fun is_dir :: "fsnode \<Rightarrow> bool" where
  "is_dir (Dir es) = True"
| "is_dir _ = False"

definition is_file :: "fsnode \<Rightarrow> bool" where
  "is_file n = (\<not> is_dir n)"

fun lookup :: "fsnode \<Rightarrow> path \<Rightarrow> fsnode option" where
  "lookup n [] = Some n"
| "lookup (Dir es) (c # cs) = (case map_of es c of None \<Rightarrow> None | Some n \<Rightarrow> lookup n cs)"
| "lookup _ (c # cs) = None"

text \<open>\<open>open(path, "rb")\<close> followed by reading: the content, or the \<open>OSError\<close> raised.\<close>

definition open_rb :: "fsnode \<Rightarrow> path \<Rightarrow> error + bytes" where
  "open_rb fs p = (case lookup fs p of Some (File content) \<Rightarrow> Inr content | _ \<Rightarrow> Inl (OSError p))"

section \<open>\<open>hashlib.md5\<close>\<close>

text \<open>
  The MD5 message digest of RFC 1321, which \<open>hashlib.md5(data).digest()\<close> computes:
  sixteen bytes. \<open>hexdigest\<close> writes a digest as lowercase hexadecimal.
\<close>

definition md5_shift :: "nat list" where
  "md5_shift =
     [7, 12, 17, 22, 7, 12, 17, 22, 7, 12, 17, 22, 7, 12, 17, 22,
      5, 9, 14, 20, 5, 9, 14, 20, 5, 9, 14, 20, 5, 9, 14, 20,
      4, 11, 16, 23, 4, 11, 16, 23, 4, 11, 16, 23, 4, 11, 16, 23,
      6, 10, 15, 21, 6, 10, 15, 21, 6, 10, 15, 21, 6, 10, 15, 21]"

definition md5_sine :: "u32 list" where
  "md5_sine =
     [0xd76aa478, 0xe8c7b756, 0x242070db, 0xc1bdceee, 0xf57c0faf, 0x4787c62a, 0xa8304613, 0xfd469501,
      0x698098d8, 0x8b44f7af, 0xffff5bb1, 0x895cd7be, 0x6b901122, 0xfd987193, 0xa679438e, 0x49b40821,
      0xf61e2562, 0xc040b340, 0x265e5a51, 0xe9b6c7aa, 0xd62f105d, 0x02441453, 0xd8a1e681, 0xe7d3fbc8,
      0x21e1cde6, 0xc33707d6, 0xf4d50d87, 0x455a14ed, 0xa9e3e905, 0xfcefa3f8, 0x676f02d9, 0x8d2a4c8a,
      0xfffa3942, 0x8771f681, 0x6d9d6122, 0xfde5380c, 0xa4beea44, 0x4bdecfa9, 0xf6bb4b60, 0xbebfbc70,
      0x289b7ec6, 0xeaa127fa, 0xd4ef3085, 0x04881d05, 0xd9d4d039, 0xe6db99e5, 0x1fa27cf8, 0xc4ac5665,
      0xf4292244, 0x432aff97, 0xab9423a7, 0xfc93a039, 0x655b59c3, 0x8f0ccc92, 0xffeff47d, 0x85845dd1,
      0x6fa87e4f, 0xfe2ce6e0, 0xa3014314, 0x4e0811a1, 0xf7537e82, 0xbd3af235, 0x2ad7d2bb, 0xeb86d391]"

definition rotl32 :: "u32 \<Rightarrow> nat \<Rightarrow> u32" where
  "rotl32 x n = push_bit n x OR drop_bit (32 - n) x"

fun le_word :: "bytes \<Rightarrow> u32" where
  "le_word [] = 0"
| "le_word (b # bs) = ucast b OR push_bit 8 (le_word bs)"

definition le_bytes :: "nat \<Rightarrow> 'a::len word \<Rightarrow> bytes" where
  "le_bytes k w = map (\<lambda>i. ucast (drop_bit (8 * i) w)) [0..<k]"

definition md5_pad :: "bytes \<Rightarrow> bytes" where
  "md5_pad m = m @ [0x80] @ replicate ((119 - length m mod 64) mod 64) 0
                 @ le_bytes 8 (of_nat (8 * length m) :: 64 word)"

fun split_every :: "nat \<Rightarrow> 'a list \<Rightarrow> 'a list list" where
  "split_every n xs = (if n = 0 \<or> xs = [] then [] else take n xs # split_every n (drop n xs))"

declare split_every.simps [simp del]

type_synonym md5_state = "u32 \<times> u32 \<times> u32 \<times> u32"

fun md5_round :: "u32 list \<Rightarrow> md5_state \<Rightarrow> nat \<Rightarrow> md5_state" where
  "md5_round M (a, b, c, d) i =
     (let (f, g) =
            (if i < 16 then ((b AND c) OR (NOT b AND d), i)
             else if i < 32 then ((d AND b) OR (NOT d AND c), (5 * i + 1) mod 16)
             else if i < 48 then (b XOR c XOR d, (3 * i + 5) mod 16)
             else (c XOR (b OR NOT d), (7 * i) mod 16))
      in (d, b + rotl32 (a + f + md5_sine ! i + M ! g) (md5_shift ! i), b, c))"

definition md5_block :: "md5_state \<Rightarrow> bytes \<Rightarrow> md5_state" where
  "md5_block st blk =
     (case st of (a, b, c, d) \<Rightarrow>
        (case foldl (md5_round (map le_word (split_every 4 blk))) st [0..<64] of
           (a', b', c', d') \<Rightarrow> (a + a', b + b', c + c', d + d')))"

definition md5 :: "bytes \<Rightarrow> bytes" where
  "md5 m =
     (case foldl md5_block (0x67452301, 0xefcdab89, 0x98badcfe, 0x10325476)
             (split_every 64 (md5_pad m)) of
        (a, b, c, d) \<Rightarrow> concat (map (le_bytes 4) [a, b, c, d]))"

definition hex_digit :: "nat \<Rightarrow> char" where
  "hex_digit n = ''0123456789abcdef'' ! n"

definition hexdigest :: "bytes \<Rightarrow> string" where
  "hexdigest bs = concat (map (\<lambda>b. [hex_digit (unat b div 16), hex_digit (unat b mod 16)]) bs)"

section \<open>Strings\<close>

text \<open>\<open>str(n)\<close> of a non-negative integer.\<close>

definition digit_char :: "nat \<Rightarrow> char" where
  "digit_char n = ''0123456789'' ! n"

fun str_nat :: "nat \<Rightarrow> string" where
  "str_nat n = (if n < 10 then [digit_char n] else str_nat (n div 10) @ [digit_char (n mod 10)])"

declare str_nat.simps [simp del]

text \<open>\<open>s.lstrip(chars)\<close> and \<open>s.strip(chars)\<close>.\<close>

definition lstrip :: "string \<Rightarrow> string \<Rightarrow> string" where
  "lstrip chars s = dropWhile (\<lambda>c. c \<in> set chars) s"

definition strip :: "string \<Rightarrow> string \<Rightarrow> string" where
  "strip chars s = rev (lstrip chars (rev (lstrip chars s)))"

text \<open>\<open>s.startswith(t)\<close>, for strings and, part by part, for paths.\<close>

definition startswith :: "'a list \<Rightarrow> 'a list \<Rightarrow> bool" where
  "startswith s t = (take (length t) s = t)"

text \<open>\<open>sep.join(parts)\<close>.\<close>

fun join :: "string \<Rightarrow> string list \<Rightarrow> string" where
  "join sep [] = []"
| "join sep [x] = x"
| "join sep (x # y # ys) = x @ sep @ join sep (y # ys)"

text \<open>\<open>str(path)\<close> of a relative path, \<open>path.name\<close>, \<open>path.relative_to(base)\<close> for a
  \<open>base\<close> the path lies under, and \<open>s.replace("\\", "/")\<close>.\<close>

definition path_str :: "path \<Rightarrow> string" where
  "path_str p = (if p = [] then ''.'' else join ''/'' p)"

definition path_name :: "path \<Rightarrow> string" where
  "path_name p = (if p = [] then [] else last p)"

definition relative_to :: "path \<Rightarrow> path \<Rightarrow> path" where
  "relative_to p base = drop (length base) p"

definition replace_backslash :: "string \<Rightarrow> string" where
  "replace_backslash s = map (\<lambda>c. if c = CHR 0x5C then CHR ''/'' else c) s"

text \<open>The text an f-string puts for a value that is a string or \<open>None\<close>.\<close>

fun fmt_opt :: "string option \<Rightarrow> string" where
  "fmt_opt None = ''None''"
| "fmt_opt (Some s) = s"

section \<open>\<open>get_local_etag\<close>\<close>

text \<open>
  \<open>f.read(n)\<close> on a file whose unread content is \<open>rest\<close>: at most \<open>n\<close> bytes, or
  all of them when \<open>n\<close> is negative. The file position moves past the bytes returned.
\<close>

definition f_read :: "int \<Rightarrow> bytes \<Rightarrow> bytes" where
  "f_read n rest = (if n < 0 then rest else take (nat n) rest)"

text \<open>The \<open>while True\<close> loop: \<open>rest\<close> is the unread content, \<open>md5s\<close> the list built so far.\<close>

function read_loop :: "int \<Rightarrow> bytes \<Rightarrow> bytes list \<Rightarrow> bytes list" where
  "read_loop chunk_size rest md5s =
     (let data = f_read chunk_size rest in
      if data = [] then md5s
      else read_loop chunk_size (drop (length data) rest) (md5s @ [md5 data]))"
  by pat_completeness auto
termination
proof (relation "measure (\<lambda>(chunk_size, rest, md5s). length rest)")
  show "wf (measure (\<lambda>(chunk_size, rest, md5s). length rest))"
    by simp
next
  fix chunk_size :: int and rest :: bytes and md5s :: "bytes list" and data :: bytes
  assume "data = f_read chunk_size rest" and "data \<noteq> []"
  then have "rest \<noteq> []" and "0 < length data"
    by (auto simp: f_read_def split: if_splits)
  then show "((chunk_size, drop (length data) rest, md5s @ [md5 data]), (chunk_size, rest, md5s))
      \<in> measure (\<lambda>(chunk_size, rest, md5s). length rest)"
    by simp
qed

declare read_loop.simps [simp del]

definition default_chunk_size :: int where
  "default_chunk_size = 8 * 1024 * 1024"

text \<open>The result is \<open>None\<close> (no chunk was read) or a string.\<close>

definition get_local_etag :: "fsnode \<Rightarrow> path \<Rightarrow> int \<Rightarrow> error + string option" where
  "get_local_etag fs p chunk_size =
     (case open_rb fs p of
        Inl e \<Rightarrow> Inl e
      | Inr content \<Rightarrow>
          (let md5s = read_loop chunk_size content [] in
           if md5s = [] then Inr None
           else if length md5s = 1 then
             (case open_rb fs p of
                Inl e \<Rightarrow> Inl e
              | Inr whole \<Rightarrow> Inr (Some (hexdigest (md5 whole))))
           else
             (let digests = concat md5s in
              Inr (Some (hexdigest (md5 digests) @ ''-'' @ str_nat (length md5s))))))"

section \<open>\<open>get_remote_etags\<close>\<close>

text \<open>
  The \<open>aws\<close> command line tool is outside the program. What it answers to a command is
  a parameter: its exit status and, for a listing, the \<open>Contents\<close> member of the JSON
  document on its standard output as pairs of \<open>Key\<close> and \<open>ETag\<close> (\<open>None\<close> when the
  document has no such member). A successful call is taken to print a JSON document
  whose objects have both members.
\<close>

record completed_process =
  returncode :: int
  contents :: "(string \<times> string) list option"

type_synonym aws_cli = "string list \<Rightarrow> completed_process"

definition list_cmd :: "string \<Rightarrow> string \<Rightarrow> string list" where
  "list_cmd bucket prefix =
     [''aws'', ''s3api'', ''list-objects-v2'', ''--bucket'', bucket, ''--output'', ''json'']
       @ (if prefix \<noteq> [] then [''--prefix'', prefix] else [])"

definition get_remote_etags ::
    "aws_cli \<Rightarrow> string \<Rightarrow> string \<Rightarrow> (error + (string \<rightharpoonup> string)) \<times> event list" where
  "get_remote_etags aws bucket prefix =
     (let cmd = list_cmd bucket prefix;
          result = aws cmd in
      if returncode result \<noteq> 0 then (Inl (CalledProcessError cmd), [Run cmd])
      else
        (let objects = (case contents result of None \<Rightarrow> [] | Some os \<Rightarrow> os);
             etags = foldl (\<lambda>etags (key, etag). etags(key \<mapsto> strip [CHR 0x22] etag)) Map.empty objects
         in (Inr etags, [Run cmd])))"

section \<open>\<open>upload_file\<close>\<close>

text \<open>
  The call of \<open>subprocess.run\<close> is commented out in the source: the function builds the
  command, prints it when verbose, and prints the progress line.
\<close>

definition put_cmd :: "string \<Rightarrow> string \<Rightarrow> path \<Rightarrow> string option \<Rightarrow> string list" where
  "put_cmd bucket key p acl =
     [''aws'', ''s3api'', ''put-object'', ''--bucket'', bucket, ''--key'', key, ''--body'', path_str p]
       @ (case acl of None \<Rightarrow> [] | Some a \<Rightarrow> if a \<noteq> [] then [''--acl'', a] else [])"

definition upload_file ::
    "string \<Rightarrow> string \<Rightarrow> path \<Rightarrow> nat \<Rightarrow> nat \<Rightarrow> string option \<Rightarrow> bool \<Rightarrow> bool \<Rightarrow> event list" where
  "upload_file bucket key p idx n_total acl dryrun verbose =
     (let cmd = put_cmd bucket key p acl in
      (if verbose then [PrintList cmd] else [])
        @ [Print (''['' @ str_nat idx @ ''/'' @ str_nat n_total @ ''] Uploaded '' @ key)])"

section \<open>\<open>parse_s3_dest\<close>\<close>

definition parse_s3_dest :: "string \<Rightarrow> (error + string \<times> string) \<times> event list" where
  "parse_s3_dest dest =
     (if \<not> startswith dest ''s3://'' then
        (Inl (SystemExit 1), [Print ''Destination must start with s3://''])
      else
        (let dest_path = drop 5 dest in
         if CHR ''/'' \<in> set dest_path then
           (Inr (takeWhile (\<lambda>c. c \<noteq> CHR ''/'') dest_path,
                 tl (dropWhile (\<lambda>c. c \<noteq> CHR ''/'') dest_path)), [])
         else (Inr (dest_path, []), [])))"

section \<open>\<open>is_excluded\<close> and \<open>discover_files\<close>\<close>

text \<open>
  \<open>fnmatch.fnmatch(name, pattern)\<close> belongs to the standard library; the functions that
  use it take it as their first argument.
\<close>

type_synonym matcher = "string \<Rightarrow> string \<Rightarrow> bool"

fun is_excluded :: "matcher \<Rightarrow> string \<Rightarrow> string list \<Rightarrow> bool" where
  "is_excluded fnmatch rel_key [] = False"
| "is_excluded fnmatch rel_key (pattern # excludes) =
     (if fnmatch rel_key pattern then True else is_excluded fnmatch rel_key excludes)"

text \<open>\<open>str(path.relative_to(source_path)).replace("\\", "/")\<close>.\<close>

definition rel_key_of :: "path \<Rightarrow> path \<Rightarrow> string" where
  "rel_key_of source_path p = replace_backslash (path_str (relative_to p source_path))"

text \<open>
  \<open>os.walk(root)\<close>, top down: one triple \<open>(root, dirs, fnames)\<close> for \<open>root\<close>, then the walk
  of each name left in \<open>dirs\<close>. The caller's loop body replaces the content of \<open>dirs\<close>
  by a filtered copy before the walk goes on; \<open>keep root d\<close> is that filter. A walk of
  something that is not a directory yields nothing.
\<close>

fun os_walk :: "(path \<Rightarrow> string \<Rightarrow> bool) \<Rightarrow> path \<Rightarrow> fsnode \<Rightarrow> (path \<times> string list \<times> string list) list" where
  "os_walk keep root (Dir es) =
     (root, map fst (filter (\<lambda>(d, n). is_dir n) es), map fst (filter (\<lambda>(f, n). \<not> is_dir n) es))
       # concat (map (\<lambda>(d, n). if is_dir n \<and> keep root d then os_walk keep (root @ [d]) n else []) es)"
| "os_walk keep root (File content) = []"
| "os_walk keep root NoAccess = []"

definition discover_files :: "matcher \<Rightarrow> fsnode \<Rightarrow> path \<Rightarrow> string list \<Rightarrow> (string \<times> path) list" where
  "discover_files fnmatch fs source_path excludes =
     (case lookup fs source_path of
        None \<Rightarrow> []
      | Some node \<Rightarrow>
          if is_file node then
            (let rel_key = path_name source_path in
             if \<not> is_excluded fnmatch rel_key excludes then [(rel_key, source_path)] else [])
          else
            concat (map
              (\<lambda>(root, dirs, fnames).
                 concat (map
                   (\<lambda>fname.
                      let p = root @ [fname];
                          rel_key = rel_key_of source_path p
                      in if \<not> is_excluded fnmatch rel_key excludes then [(rel_key, p)] else [])
                   fnames))
              (os_walk (\<lambda>root d. \<not> is_excluded fnmatch (rel_key_of source_path (root @ [d])) excludes)
                 source_path node)))"

section \<open>\<open>plan_uploads\<close>\<close>

text \<open>The two lines that compute \<open>key\<close> from \<open>prefix\<close> and \<open>rel_key\<close>.\<close>

definition dest_key :: "string \<Rightarrow> string \<Rightarrow> string" where
  "dest_key prefix rel_key = lstrip ''/'' (if prefix \<noteq> [] then prefix @ ''/'' @ rel_key else rel_key)"

text \<open>The line printed for a scheduled upload when verbose.\<close>

definition scheduling :: "string \<Rightarrow> string option \<Rightarrow> string option \<Rightarrow> string" where
  "scheduling key local_etag remote_etag =
     ''Scheduling upload: '' @ key @ '' (local etag: '' @ fmt_opt local_etag
       @ '', remote etag: '' @ fmt_opt remote_etag @ '')''"

text \<open>
  The \<open>for\<close> loop over \<open>files\<close>; \<open>to_upload\<close> is the list built so far and \<open>out\<close> the
  events so far. An exception of \<open>get_local_etag\<close> leaves the loop and the function.
\<close>

fun plan_loop ::
    "fsnode \<Rightarrow> string \<Rightarrow> bool \<Rightarrow> (string \<rightharpoonup> string) \<Rightarrow> (string \<times> path) list
       \<Rightarrow> (string \<times> path) list \<Rightarrow> event list \<Rightarrow> (error + (string \<times> path) list) \<times> event list" where
  "plan_loop fs prefix verbose remote_etags [] to_upload out = (Inr to_upload, out)"
| "plan_loop fs prefix verbose remote_etags ((rel_key, p) # files) to_upload out =
     (let key = dest_key prefix rel_key in
      case get_local_etag fs p default_chunk_size of
        Inl e \<Rightarrow> (Inl e, out)
      | Inr local_etag \<Rightarrow>
          (let remote_etag = remote_etags key in
           if local_etag \<noteq> remote_etag then
             plan_loop fs prefix verbose remote_etags files (to_upload @ [(key, p)])
               (out @ (if verbose then [Print (scheduling key local_etag remote_etag)] else []))
           else plan_loop fs prefix verbose remote_etags files to_upload out))"

definition plan_uploads ::
    "fsnode \<Rightarrow> aws_cli \<Rightarrow> (string \<times> path) list \<Rightarrow> string \<Rightarrow> string \<Rightarrow> bool
       \<Rightarrow> (error + (string \<times> path) list) \<times> event list" where
  "plan_uploads fs aws files bucket prefix verbose =
     (case get_remote_etags aws bucket prefix of
        (Inl e, out) \<Rightarrow> (Inl e, out)
      | (Inr remote_etags, out) \<Rightarrow> plan_loop fs prefix verbose remote_etags files [] out)"

section \<open>\<open>sync\<close>\<close>

text \<open>
  The arguments \<open>upload_file\<close> is submitted with: for the entry at position \<open>i\<close> of the
  plan, its key and path, \<open>i + 1\<close> and the length of the plan.
\<close>

definition submitted :: "(string \<times> path) list \<Rightarrow> (string \<times> path \<times> nat \<times> nat) list" where
  "submitted to_upload =
     map (\<lambda>(i, (key, p)). (key, p, i + 1, length to_upload)) (enumerate 0 to_upload)"

text \<open>
  The pool runs the submitted calls on \<open>workers\<close> threads and the lock keeps each printed
  line whole. The events of the calls are recorded in the order of submission, which is
  the order of the run for one worker and one of the possible orders for more.
\<close>

definition sync ::
    "matcher \<Rightarrow> fsnode \<Rightarrow> aws_cli \<Rightarrow> path \<Rightarrow> string \<Rightarrow> int \<Rightarrow> string option \<Rightarrow> bool \<Rightarrow> string list \<Rightarrow> bool
       \<Rightarrow> (error + unit) \<times> event list" where
  "sync fnmatch fs aws source dest workers acl dryrun excludes verbose =
     (case parse_s3_dest dest of
        (Inl e, out) \<Rightarrow> (Inl e, out)
      | (Inr (bucket, prefix), out) \<Rightarrow>
          if lookup fs source = None then
            (Inl (SystemExit 1), out @ [Print (''Source path does not exist: '' @ path_str source)])
          else
            (let files = discover_files fnmatch fs source excludes in
             case plan_uploads fs aws files bucket prefix verbose of
               (Inl e, out') \<Rightarrow> (Inl e, out @ out')
             | (Inr to_upload, out') \<Rightarrow>
                 (let n_total = length to_upload in
                  if n_total = 0 then (Inr (), out @ out' @ [Print ''All files are up to date.''])
                  else
                    (let out'' = out @ out' @ [Print (''Uploading '' @ str_nat n_total @ '' files...'')] in
                     if workers \<le> 0 then (Inl ValueError, out'')
                     else
                       (Inr (), out'' @ concat (map
                          (\<lambda>(key, p, idx, n). upload_file bucket key p idx n acl dryrun verbose)
                          (submitted to_upload)))))))"

section \<open>Notions of the specification and example inputs\<close>

text \<open>
  The chunks of a file as the specification describes them: chunk \<open>i\<close> is the window of
  \<open>c\<close> bytes that starts at offset \<open>i * c\<close>, and a file of \<open>n\<close> bytes spans
  \<open>\<lceil>n / c\<rceil>\<close> of them.
\<close>

definition chunks_of :: "nat \<Rightarrow> 'a list \<Rightarrow> 'a list list" where
  "chunks_of c xs = map (\<lambda>i. take c (drop (i * c) xs)) [0..<(length xs + c - 1) div c]"

text \<open>
  The test of the planner, for one entry of \<open>files\<close>: the local fingerprint differs from
  \<open>remote_etags.get(key)\<close>. A file that cannot be read has no fingerprint to compare.
\<close>

definition mismatch :: "fsnode \<Rightarrow> string \<Rightarrow> (string \<rightharpoonup> string) \<Rightarrow> string \<times> path \<Rightarrow> bool" where
  "mismatch fs prefix remote_etags = (\<lambda>(rel_key, p).
     get_local_etag fs p default_chunk_size \<noteq> Inr (remote_etags (dest_key prefix rel_key)))"

text \<open>
  A matcher for the examples: \<open>fnmatch\<close> on patterns made of literal characters, \<open>*\<close>
  (any run of characters) and \<open>?\<close> (any one character), case sensitive.
\<close>

fun glob_match :: "string \<Rightarrow> string \<Rightarrow> bool" where
  "glob_match s [] = (s = [])"
| "glob_match s (c # pat) =
     (if c = CHR ''*'' then
        (if glob_match s pat then True
         else (case s of [] \<Rightarrow> False | x # xs \<Rightarrow> glob_match xs (c # pat)))
      else (case s of [] \<Rightarrow> False | x # xs \<Rightarrow> (c = CHR ''?'' \<or> c = x) \<and> glob_match xs pat))"

text \<open>
  Two answers of the \<open>aws\<close> tool for the examples: a listing that succeeds with the given
  objects, and a call that fails.
\<close>

definition aws_lists :: "(string \<times> string) list \<Rightarrow> aws_cli" where
  "aws_lists objects cmd = \<lparr>returncode = 0, contents = Some objects\<rparr>"

definition aws_fails :: aws_cli where
  "aws_fails cmd = \<lparr>returncode = 255, contents = None\<rparr>"

section \<open>The fingerprint\<close>

subsection \<open>Test vectors of RFC 1321\<close>

lemma md5_empty_vector: "hexdigest (md5 []) = ''d41d8cd98f00b204e9800998ecf8427e''"
  by code_simp

lemma md5_abc_vector: "hexdigest (md5 [0x61, 0x62, 0x63]) = ''900150983cd24fb0d6963f7d28e17f72''"
  by code_simp

text \<open>Eighty bytes, the digits \<open>1234567890\<close> eight times: two blocks.\<close>

lemma md5_digits_vector:
  "hexdigest (md5 (concat (replicate 8 [0x31, 0x32, 0x33, 0x34, 0x35, 0x36, 0x37, 0x38, 0x39, 0x30])))
     = ''57edf4a22be3c955ac49da2e2107b67a''"
  by code_simp

lemma str_nat_example: "str_nat 1205 = ''1205''"
  by code_simp

subsection \<open>The read loop computes the digests of the chunks\<close>

lemma chunks_of_Nil: "0 < c \<Longrightarrow> chunks_of c [] = []"
  by (simp add: chunks_of_def)

lemma chunk_count_step:
  assumes "0 < c" and "0 < (n::nat)"
  shows "(n + c - 1) div c = Suc ((n - c + c - 1) div c)"
proof (cases "c \<le> n")
  case True
  then have "n + c - 1 = (n - c + c - 1) + c"
    using assms by simp
  then show ?thesis
    using assms by (metis div_add_self2 less_numeral_extra(3) Suc_eq_plus1)
next
  case False
  then have "(n + c - 1) div c = 1"
    using assms by (simp add: div_nat_eqI)
  moreover have "(n - c + c - 1) div c = 0"
    using False assms by simp
  ultimately show ?thesis by simp
qed

lemma chunks_of_step:
  assumes "0 < c" and "xs \<noteq> []"
  shows "chunks_of c xs = take c xs # chunks_of c (drop c xs)"
proof -
  have n: "(length xs + c - 1) div c = Suc ((length (drop c xs) + c - 1) div c)"
    using chunk_count_step [of c "length xs"] assms by simp
  have "map (\<lambda>i. take c (drop (i * c) xs)) [0..<Suc m]
      = take c xs # map (\<lambda>i. take c (drop (i * c) (drop c xs))) [0..<m]" for m
    by (simp add: upt_conv_Cons map_Suc_upt [symmetric] add.commute del: upt_Suc)
  then show ?thesis
    unfolding chunks_of_def n by simp
qed

lemma read_loop_chunks:
  "0 < c \<Longrightarrow> read_loop (int c) rest md5s = md5s @ map md5 (chunks_of c rest)"
proof (induction "length rest" arbitrary: rest md5s rule: less_induct)
  case less
  show ?case
  proof (cases "rest = []")
    case True
    then show ?thesis
      using less.prems by (simp add: read_loop.simps [of _ "[]"] f_read_def chunks_of_Nil)
  next
    case False
    then have data: "f_read (int c) rest = take c rest" "take c rest \<noteq> []"
      using less.prems by (auto simp: f_read_def)
    have len: "length (take c rest) = min (length rest) c" by simp
    have "drop (length (take c rest)) rest = drop c rest"
      by (cases "c \<le> length rest") (simp_all add: min_def)
    moreover have "length (drop c rest) < length rest"
      using False less.prems by simp
    ultimately have "read_loop (int c) rest md5s
        = (md5s @ [md5 (take c rest)]) @ map md5 (chunks_of c (drop c rest))"
      using less.hyps [of "drop c rest" "md5s @ [md5 (take c rest)]"] less.prems data
      by (subst read_loop.simps) (simp add: Let_def)
    then show ?thesis
      using chunks_of_step [OF less.prems False] by simp
  qed
qed

lemma read_loop_empty: "read_loop chunk_size [] md5s = md5s"
  by (subst read_loop.simps) (simp add: f_read_def)

lemma read_loop_zero: "read_loop 0 rest md5s = md5s"
  by (subst read_loop.simps) (simp add: f_read_def)





lemma chunk_count: "length (chunks_of c xs) = (length xs + c - 1) div c"
  by (simp add: chunks_of_def)

text \<open>
  Claim C3. A file whose bytes span \<open>n > 1\<close> chunks of the chunk size has the fingerprint
  \<open>hex(md5(d\<^sub>1 ... d\<^sub>n)) + "-" + str(n)\<close>, where \<open>d\<^sub>i\<close> is the raw sixteen-byte digest of
  chunk \<open>i\<close>; a file that is read in exactly one chunk has the hexadecimal MD5 digest of
  its whole content.
\<close>

theorem get_local_etag_chunked:
  assumes "open_rb fs p = Inr content" and "0 < chunk_size"
    and "n = (length content + nat chunk_size - 1) div nat chunk_size"
  shows "(1 < n \<longrightarrow> get_local_etag fs p chunk_size =
            Inr (Some (hexdigest (md5 (concat (map md5 (chunks_of (nat chunk_size) content))))
                       @ ''-'' @ str_nat n)))
       \<and> (n = 1 \<longrightarrow> get_local_etag fs p chunk_size = Inr (Some (hexdigest (md5 content))))"
proof -
  have loop: "read_loop chunk_size content [] = map md5 (chunks_of (nat chunk_size) content)"
    using read_loop_chunks [of "nat chunk_size" content "[]"] assms(2) by simp
  have len: "length (map md5 (chunks_of (nat chunk_size) content)) = n"
    using assms(3) by (simp add: chunk_count)
  show ?thesis
  proof (intro conjI impI)
    assume "1 < n"
    then have "map md5 (chunks_of (nat chunk_size) content) \<noteq> []" using len by auto
    then show "get_local_etag fs p chunk_size =
        Inr (Some (hexdigest (md5 (concat (map md5 (chunks_of (nat chunk_size) content))))
                   @ ''-'' @ str_nat n))"
      using \<open>1 < n\<close> len assms(1) by (simp add: get_local_etag_def loop Let_def)
  next
    assume "n = 1"
    then have "map md5 (chunks_of (nat chunk_size) content) \<noteq> []" using len by auto
    then show "get_local_etag fs p chunk_size = Inr (Some (hexdigest (md5 content)))"
      using \<open>n = 1\<close> len assms(1) by (simp add: get_local_etag_def loop Let_def)
  qed
qed

theorem get_local_etag_chunked_witness:
  "get_local_etag (Dir [(''f'', File [0x61, 0x62, 0x63])]) [''f''] 2
     = Inr (Some (hexdigest (md5 (md5 [0x61, 0x62] @ md5 [0x63])) @ ''-2''))
   \<and> get_local_etag (Dir [(''f'', File [0x61, 0x62, 0x63])]) [''f''] 3
     = Inr (Some (hexdigest (md5 [0x61, 0x62, 0x63])))"
proof -
  have o: "open_rb (Dir [(''f'', File [0x61, 0x62, 0x63])]) [''f''] = Inr [0x61, 0x62, 0x63]"
    by (simp add: open_rb_def)
  have c: "chunks_of 2 [0x61, 0x62, 0x63 :: byte] = [[0x61, 0x62], [0x63]]"
    by (simp add: chunks_of_def upt_conv_Cons)
  have s: "str_nat 2 = ''2''"
    by (simp add: str_nat.simps digit_char_def)
  show ?thesis
    using get_local_etag_chunked [OF o, of 2 2] get_local_etag_chunked [OF o, of 3 1]
    by (simp add: c s)
qed

text \<open>With a chunk size of 0 no chunk is ever read, whatever the file holds.\<close>

lemma get_local_etag_zero_chunk:
  "open_rb fs p = Inr content \<Longrightarrow> get_local_etag fs p 0 = Inr None"
  by (simp add: get_local_etag_def read_loop_zero)



section \<open>The planner\<close>

subsection \<open>Fingerprints of small files\<close>



lemma get_local_etag_empty: "open_rb fs p = Inr [] \<Longrightarrow> get_local_etag fs p chunk_size = Inr None"
  by (simp add: get_local_etag_def read_loop_empty)

lemma get_local_etag_single:
  assumes "open_rb fs p = Inr content" and "content \<noteq> []" and "int (length content) \<le> chunk_size"
  shows "get_local_etag fs p chunk_size = Inr (Some (hexdigest (md5 content)))"
proof -
  have "f_read chunk_size content = content"
    using assms(3) by (simp add: f_read_def)
  then have "read_loop chunk_size content [] = [md5 content]"
    using assms(2) by (subst read_loop.simps) (simp add: read_loop_empty)
  then show ?thesis
    using assms(1) by (simp add: get_local_etag_def)
qed

subsection \<open>The remote listing\<close>

lemma get_remote_etags_fail:
  "returncode (aws (list_cmd bucket prefix)) \<noteq> 0 \<Longrightarrow>
   get_remote_etags aws bucket prefix
     = (Inl (CalledProcessError (list_cmd bucket prefix)), [Run (list_cmd bucket prefix)])"
  by (simp add: get_remote_etags_def Let_def)

lemma get_remote_etags_ok:
  "returncode (aws (list_cmd bucket prefix)) = 0 \<Longrightarrow>
   \<exists>remote_etags. get_remote_etags aws bucket prefix = (Inr remote_etags, [Run (list_cmd bucket prefix)])"
  by (simp add: get_remote_etags_def Let_def)

lemma get_remote_etags_events:
  "snd (get_remote_etags aws bucket prefix) = [Run (list_cmd bucket prefix)]"
  by (simp add: get_remote_etags_def Let_def)

subsection \<open>The planning loop\<close>

lemma plan_loop_step_error:
  "get_local_etag fs p default_chunk_size = Inl e \<Longrightarrow>
   plan_loop fs prefix verbose remote_etags ((rel_key, p) # files) to_upload out = (Inl e, out)"
  by (simp add: Let_def)

lemma plan_loop_step_mismatch:
  "get_local_etag fs p default_chunk_size = Inr etag \<Longrightarrow>
   etag \<noteq> remote_etags (dest_key prefix rel_key) \<Longrightarrow>
   plan_loop fs prefix verbose remote_etags ((rel_key, p) # files) to_upload out
     = plan_loop fs prefix verbose remote_etags files (to_upload @ [(dest_key prefix rel_key, p)])
         (out @ (if verbose
                 then [Print (scheduling (dest_key prefix rel_key) etag (remote_etags (dest_key prefix rel_key)))]
                 else []))"
  by (simp add: Let_def)

lemma plan_loop_step_match:
  "get_local_etag fs p default_chunk_size = Inr (remote_etags (dest_key prefix rel_key)) \<Longrightarrow>
   plan_loop fs prefix verbose remote_etags ((rel_key, p) # files) to_upload out
     = plan_loop fs prefix verbose remote_etags files to_upload out"
  by (simp add: Let_def)

lemma plan_loop_Inr:
  "plan_loop fs prefix verbose remote_etags files to_upload out = (Inr plan, out') \<Longrightarrow>
   plan = to_upload @ map (\<lambda>(rel_key, p). (dest_key prefix rel_key, p))
                        (filter (mismatch fs prefix remote_etags) files)
   \<and> (\<forall>(rel_key, p) \<in> set files. \<exists>etag. get_local_etag fs p default_chunk_size = Inr etag)"
proof (induction files arbitrary: to_upload out)
  case Nil
  then show ?case by simp
next
  case (Cons f files)
  obtain rel_key p where f: "f = (rel_key, p)" by (cases f)
  show ?case
  proof (cases "get_local_etag fs p default_chunk_size")
    case (Inl e)
    then show ?thesis
      using Cons.prems plan_loop_step_error [OF Inl] by (simp add: f)
  next
    case (Inr etag)
    show ?thesis
    proof (cases "etag = remote_etags (dest_key prefix rel_key)")
      case True
      have "plan_loop fs prefix verbose remote_etags files to_upload out = (Inr plan, out')"
        using Cons.prems Inr True by (simp add: f plan_loop_step_match)
      from Cons.IH [OF this] show ?thesis
        using Inr True by (simp add: f mismatch_def)
    next
      case False
      obtain out1 where
        "plan_loop fs prefix verbose remote_etags files (to_upload @ [(dest_key prefix rel_key, p)]) out1
           = (Inr plan, out')"
        using Cons.prems Inr False
          plan_loop_step_mismatch [of fs p etag remote_etags prefix rel_key verbose files to_upload out]
        by (simp add: f)
      from Cons.IH [OF this] show ?thesis
        using Inr False by (simp add: f mismatch_def)
    qed
  qed
qed

lemma plan_loop_readable:
  "\<forall>(rel_key, p) \<in> set files. \<exists>etag. get_local_etag fs p default_chunk_size = Inr etag \<Longrightarrow>
   fst (plan_loop fs prefix verbose remote_etags files to_upload out)
     = Inr (to_upload @ map (\<lambda>(rel_key, p). (dest_key prefix rel_key, p))
                          (filter (mismatch fs prefix remote_etags) files))"
proof (induction files arbitrary: to_upload out)
  case Nil
  then show ?case by simp
next
  case (Cons f files)
  obtain rel_key p where f: "f = (rel_key, p)" by (cases f)
  from Cons.prems obtain etag where e: "get_local_etag fs p default_chunk_size = Inr etag"
    by (auto simp: f)
  have rest: "\<forall>(rel_key, p) \<in> set files. \<exists>etag. get_local_etag fs p default_chunk_size = Inr etag"
    using Cons.prems by simp
  show ?case
  proof (cases "etag = remote_etags (dest_key prefix rel_key)")
    case True
    then show ?thesis
      using Cons.IH [OF rest] e by (simp add: f mismatch_def plan_loop_step_match)
  next
    case False
    show ?thesis
      using Cons.IH [OF rest] e False
        plan_loop_step_mismatch [of fs p etag remote_etags prefix rel_key verbose files to_upload out]
      by (simp add: f mismatch_def)
  qed
qed


lemma plan_uploads_Inr:
  assumes "plan_uploads fs aws files bucket prefix verbose = (Inr to_upload, out)"
  shows "\<exists>remote_etags. get_remote_etags aws bucket prefix = (Inr remote_etags, [Run (list_cmd bucket prefix)])
           \<and> to_upload = map (\<lambda>(rel_key, p). (dest_key prefix rel_key, p))
                               (filter (mismatch fs prefix remote_etags) files)
           \<and> (\<forall>(rel_key, p) \<in> set files. \<exists>etag. get_local_etag fs p default_chunk_size = Inr etag)"
proof (cases "returncode (aws (list_cmd bucket prefix)) = 0")
  case True
  then obtain remote_etags where
    r: "get_remote_etags aws bucket prefix = (Inr remote_etags, [Run (list_cmd bucket prefix)])"
    using get_remote_etags_ok by blast
  then have "plan_loop fs prefix verbose remote_etags files [] [Run (list_cmd bucket prefix)]
      = (Inr to_upload, out)"
    using assms by (simp add: plan_uploads_def)
  from plan_loop_Inr [OF this] r show ?thesis by auto
next
  case False
  then show ?thesis
    using assms by (simp add: plan_uploads_def get_remote_etags_fail)
qed

lemma get_remote_etags_aws_lists:
  "get_remote_etags (aws_lists objects) bucket prefix
     = (Inr (foldl (\<lambda>etags (key, etag). etags(key \<mapsto> strip [CHR 0x22] etag)) Map.empty objects),
        [Run (list_cmd bucket prefix)])"
  by (simp add: get_remote_etags_def aws_lists_def)



lemma submitted_mem:
  "(key, p, idx, n) \<in> set (submitted to_upload) \<Longrightarrow> (key, p) \<in> set to_upload"
  by (auto simp: submitted_def enumerate_eq_zip dest: set_zip_rightD)

text \<open>
  Claim C10. A zero-byte local file whose destination key is absent from the remote
  listing is left out of the plan: its fingerprint is \<open>None\<close>, and so is the result of
  \<open>remote_etags.get(key)\<close>. No call of \<open>upload_file\<close> is submitted for it.
\<close>

theorem empty_file_missing_remotely_is_skipped:
  assumes "plan_uploads fs aws files bucket prefix verbose = (Inr to_upload, out)"
    and "get_remote_etags aws bucket prefix = (Inr remote_etags, out0)"
    and "open_rb fs p = Inr []"
    and "remote_etags (dest_key prefix rel_key) = None"
  shows "(dest_key prefix rel_key, p) \<notin> set to_upload
       \<and> (\<forall>idx n. (dest_key prefix rel_key, p, idx, n) \<notin> set (submitted to_upload))"
proof -
  from plan_uploads_Inr [OF assms(1)] assms(2)
  have plan: "to_upload = map (\<lambda>(rel_key, p). (dest_key prefix rel_key, p))
                             (filter (mismatch fs prefix remote_etags) files)"
    by auto
  have "get_local_etag fs p default_chunk_size = Inr None"
    using assms(3) by (rule get_local_etag_empty)
  then have "\<not> mismatch fs prefix remote_etags (r, p)" if "dest_key prefix r = dest_key prefix rel_key" for r
    using assms(4) that by (simp add: mismatch_def)
  then have "(dest_key prefix rel_key, p) \<notin> set to_upload"
    unfolding plan by auto
  then show ?thesis
    using submitted_mem by blast
qed

theorem empty_file_missing_remotely_is_skipped_witness:
  "plan_uploads (Dir [(''new.txt'', File []), (''b.txt'', File [0x62])]) (aws_lists [])
      [(''new.txt'', [''new.txt'']), (''b.txt'', [''b.txt''])] ''bkt'' '''' False
     = (Inr [(''b.txt'', [''b.txt''])], [Run (list_cmd ''bkt'' '''')])
   \<and> get_remote_etags (aws_lists []) ''bkt'' '''' = (Inr Map.empty, [Run (list_cmd ''bkt'' '''')])
   \<and> open_rb (Dir [(''new.txt'', File []), (''b.txt'', File [0x62])]) [''new.txt''] = Inr []
   \<and> (''new.txt'', [''new.txt'']) \<notin> set [(''b.txt'', [''b.txt''])]
   \<and> (''new.txt'', [''new.txt''], 1, 1) \<notin> set (submitted [(''b.txt'', [''b.txt''])])"
proof -
  let ?fs = "Dir [(''new.txt'', File []), (''b.txt'', File [0x62])]"
  have o1: "open_rb ?fs [''new.txt''] = Inr []" and o2: "open_rb ?fs [''b.txt''] = Inr [0x62]"
    by (simp_all add: open_rb_def)
  have e1: "get_local_etag ?fs [''new.txt''] default_chunk_size = Inr None"
    using o1 by (rule get_local_etag_empty)
  have e2: "get_local_etag ?fs [''b.txt''] default_chunk_size = Inr (Some (hexdigest (md5 [0x62])))"
    using o2 by (rule get_local_etag_single) (simp_all add: default_chunk_size_def)
  have r: "get_remote_etags (aws_lists []) ''bkt'' '''' = (Inr Map.empty, [Run (list_cmd ''bkt'' '''')])"
    by (simp add: get_remote_etags_aws_lists)
  have k: "dest_key '''' ''new.txt'' = ''new.txt''" "dest_key '''' ''b.txt'' = ''b.txt''"
    by (simp_all add: dest_key_def lstrip_def)
  have p: "plan_uploads ?fs (aws_lists []) [(''new.txt'', [''new.txt'']), (''b.txt'', [''b.txt''])] ''bkt'' '''' False
     = (Inr [(''b.txt'', [''b.txt''])], [Run (list_cmd ''bkt'' '''')])"
    by (simp add: plan_uploads_def r e1 e2 k Let_def)
  show ?thesis
    using empty_file_missing_remotely_is_skipped [OF p r o1, of "''new.txt''"] p r o1
    by (simp add: k)
qed


subsection \<open>The run as a whole\<close>

lemma parse_s3_dest_out: "parse_s3_dest dest = (Inr bp, out) \<Longrightarrow> out = []"
  by (auto simp: parse_s3_dest_def Let_def split: if_splits)

lemma sync_plan_error:
  assumes "parse_s3_dest dest = (Inr (bucket, prefix), out)" and "lookup fs source \<noteq> None"
    and "plan_uploads fs aws (discover_files fnmatch fs source excludes) bucket prefix verbose = (Inl e, out')"
  shows "sync fnmatch fs aws source dest workers acl dryrun excludes verbose = (Inl e, out')"
  using assms parse_s3_dest_out [OF assms(1)] by (auto simp: sync_def)

lemma sync_plan_empty:
  assumes "parse_s3_dest dest = (Inr (bucket, prefix), out)" and "lookup fs source \<noteq> None"
    and "plan_uploads fs aws (discover_files fnmatch fs source excludes) bucket prefix verbose = (Inr [], out')"
  shows "sync fnmatch fs aws source dest workers acl dryrun excludes verbose
           = (Inr (), out' @ [Print ''All files are up to date.''])"
  using assms parse_s3_dest_out [OF assms(1)] by (auto simp: sync_def)

lemma sync_plan_uploads:
  assumes "parse_s3_dest dest = (Inr (bucket, prefix), out)" and "lookup fs source \<noteq> None"
    and "plan_uploads fs aws (discover_files fnmatch fs source excludes) bucket prefix verbose
           = (Inr to_upload, out')"
    and "to_upload \<noteq> []" and "0 < workers"
  shows "sync fnmatch fs aws source dest workers acl dryrun excludes verbose
           = (Inr (), out' @ [Print (''Uploading '' @ str_nat (length to_upload) @ '' files...'')]
                @ concat (map (\<lambda>(key, p, idx, n). upload_file bucket key p idx n acl dryrun verbose)
                            (submitted to_upload)))"
  using assms parse_s3_dest_out [OF assms(1)] by (auto simp: sync_def Let_def)

text \<open>
  Claim C7. When the listing command exits with a non-zero status, \<open>plan_uploads\<close> raises
  \<open>CalledProcessError\<close> whatever the local files are, and \<open>sync\<close> ends with that error:
  the only event of the run is the listing command itself, so no upload was planned,
  announced or attempted.
\<close>

theorem listing_failure_aborts_sync:
  assumes "parse_s3_dest dest = (Inr (bucket, prefix), out)" and "lookup fs source \<noteq> None"
    and "returncode (aws (list_cmd bucket prefix)) \<noteq> 0"
  shows "plan_uploads fs aws files bucket prefix verbose
           = (Inl (CalledProcessError (list_cmd bucket prefix)), [Run (list_cmd bucket prefix)])
       \<and> sync fnmatch fs aws source dest workers acl dryrun excludes verbose
           = (Inl (CalledProcessError (list_cmd bucket prefix)), [Run (list_cmd bucket prefix)])"
proof -
  have p: "plan_uploads fs aws files bucket prefix verbose
      = (Inl (CalledProcessError (list_cmd bucket prefix)), [Run (list_cmd bucket prefix)])" for files
    using assms(3) by (simp add: plan_uploads_def get_remote_etags_fail)
  from sync_plan_error [OF assms(1,2) p] p show ?thesis by simp
qed

theorem listing_failure_aborts_sync_witness:
  "sync glob_match (Dir [(''a.txt'', File [0x61])]) aws_fails [] ''s3://bkt/pre'' 4 None False [] False
     = (Inl (CalledProcessError [''aws'', ''s3api'', ''list-objects-v2'', ''--bucket'', ''bkt'',
                                 ''--output'', ''json'', ''--prefix'', ''pre'']),
        [Run [''aws'', ''s3api'', ''list-objects-v2'', ''--bucket'', ''bkt'',
              ''--output'', ''json'', ''--prefix'', ''pre'']])"
proof -
  have d: "parse_s3_dest ''s3://bkt/pre'' = (Inr (''bkt'', ''pre''), [])"
    by (simp add: parse_s3_dest_def startswith_def)
  have l: "lookup (Dir [(''a.txt'', File [0x61])]) [] \<noteq> None"
    by simp
  have r: "returncode (aws_fails (list_cmd ''bkt'' ''pre'')) \<noteq> 0"
    by (simp add: aws_fails_def)
  show ?thesis
    using listing_failure_aborts_sync [where aws = aws_fails and fnmatch = glob_match
        and workers = 4 and acl = None and dryrun = False and excludes = "[]" and verbose = False,
        OF d l r]
    by (simp add: list_cmd_def)
qed




lemma str_nat_digit: "n < 10 \<Longrightarrow> str_nat n = [digit_char n]"
  by (simp add: str_nat.simps)

text \<open>
  Claim C1, at an input where the code departs from it. The source directory holds one
  new file, of zero bytes, and the bucket holds nothing: the key is missing remotely, yet
  the plan is empty and the run reports that all files are up to date.
\<close>

theorem new_empty_file_is_not_planned:
  "sync glob_match (Dir [(''new.txt'', File [])]) (aws_lists []) [] ''s3://bkt'' 4 None False [] True
     = (Inr (),
        [Run [''aws'', ''s3api'', ''list-objects-v2'', ''--bucket'', ''bkt'', ''--output'', ''json''],
         Print ''All files are up to date.''])"
proof -
  let ?fs = "Dir [(''new.txt'', File [])]"
  have d: "parse_s3_dest ''s3://bkt'' = (Inr (''bkt'', []), [])"
    by (simp add: parse_s3_dest_def startswith_def)
  have f: "discover_files glob_match ?fs [] [] = [(''new.txt'', [''new.txt''])]"
    by (simp add: discover_files_def is_file_def rel_key_of_def relative_to_def path_str_def
        replace_backslash_def)
  have e: "get_local_etag ?fs [''new.txt''] default_chunk_size = Inr None"
    by (rule get_local_etag_empty) (simp add: open_rb_def)
  have p: "plan_uploads ?fs (aws_lists []) (discover_files glob_match ?fs [] []) ''bkt'' [] True
      = (Inr [], [Run (list_cmd ''bkt'' [])])"
    by (simp add: plan_uploads_def get_remote_etags_aws_lists f e dest_key_def lstrip_def Let_def)
  show ?thesis
    using sync_plan_empty [OF d _ p, of 4 None False] by (simp add: list_cmd_def)
qed

lemma upload_file_runs_nothing: "Run cmd \<notin> set (upload_file bucket key p idx n acl dryrun verbose)"
  by (simp add: upload_file_def Let_def)

lemma upload_file_ignores_dryrun:
  "upload_file bucket key p idx n acl True verbose = upload_file bucket key p idx n acl False verbose"
  by (simp add: upload_file_def)

text \<open>
  Claim C2, at an input where the code departs from it. With \<open>dryrun = False\<close> and one
  file to upload, the run prints the progress line of the upload, and the only command
  it runs is the listing: no \<open>put-object\<close> is issued.
\<close>

theorem upload_without_dryrun_runs_no_put:
  "sync glob_match (Dir [(''a.txt'', File [0x61])]) (aws_lists []) [] ''s3://bkt'' 4 None False [] False
     = (Inr (),
        [Run [''aws'', ''s3api'', ''list-objects-v2'', ''--bucket'', ''bkt'', ''--output'', ''json''],
         Print ''Uploading 1 files...'',
         Print ''[1/1] Uploaded a.txt''])"
proof -
  let ?fs = "Dir [(''a.txt'', File [0x61])]"
  have d: "parse_s3_dest ''s3://bkt'' = (Inr (''bkt'', []), [])"
    by (simp add: parse_s3_dest_def startswith_def)
  have f: "discover_files glob_match ?fs [] [] = [(''a.txt'', [''a.txt''])]"
    by (simp add: discover_files_def is_file_def rel_key_of_def relative_to_def path_str_def
        replace_backslash_def)
  have e: "get_local_etag ?fs [''a.txt''] default_chunk_size = Inr (Some (hexdigest (md5 [0x61])))"
    by (rule get_local_etag_single) (simp_all add: open_rb_def default_chunk_size_def)
  have p: "plan_uploads ?fs (aws_lists []) (discover_files glob_match ?fs [] []) ''bkt'' [] False
      = (Inr [(''a.txt'', [''a.txt''])], [Run (list_cmd ''bkt'' [])])"
    by (simp add: plan_uploads_def get_remote_etags_aws_lists f e dest_key_def lstrip_def Let_def)
  show ?thesis
    using sync_plan_uploads [OF d _ p, of 4 None False]
    by (simp add: list_cmd_def submitted_def enumerate_eq_zip upload_file_def str_nat_digit digit_char_def)
qed




subsection \<open>A second run\<close>

lemma distinct_map_eq:
  "distinct (map f xs) \<Longrightarrow> x \<in> set xs \<Longrightarrow> y \<in> set xs \<Longrightarrow> f x = f y \<Longrightarrow> x = y"
  by (meson distinct_map inj_onD)

text \<open>
  Let the destination keys of the local entries be distinct, let the second listing give,
  for every key the first run planned, the fingerprint that \<open>get_local_etag\<close> computes
  for its file, and let it agree with the first listing on every other key. Then the
  second run plans nothing.
\<close>

lemma second_run_plans_nothing:
  assumes "plan_uploads fs aws files bucket prefix verbose = (Inr to_upload, out)"
    and "get_remote_etags aws bucket prefix = (Inr remote_etags, out0)"
    and "get_remote_etags aws' bucket prefix = (Inr remote_etags', out0')"
    and "distinct (map (\<lambda>(rel_key, p). dest_key prefix rel_key) files)"
    and "\<forall>(key, p) \<in> set to_upload.
           \<exists>etag. remote_etags' key = Some etag \<and> get_local_etag fs p default_chunk_size = Inr (Some etag)"
    and "\<forall>key. key \<notin> fst ` set to_upload \<longrightarrow> remote_etags' key = remote_etags key"
  shows "fst (plan_uploads fs aws' files bucket prefix verbose') = Inr []"
proof -
  from plan_uploads_Inr [OF assms(1)] assms(2)
  have plan: "to_upload = map (\<lambda>(rel_key, p). (dest_key prefix rel_key, p))
                             (filter (mismatch fs prefix remote_etags) files)"
    and readable: "\<forall>(rel_key, p) \<in> set files. \<exists>etag. get_local_etag fs p default_chunk_size = Inr etag"
    by auto
  have "\<not> mismatch fs prefix remote_etags' (rel_key, p)" if f: "(rel_key, p) \<in> set files" for rel_key p
  proof (cases "mismatch fs prefix remote_etags (rel_key, p)")
    case True
    then have "(dest_key prefix rel_key, p) \<in> set to_upload"
      unfolding plan using f by force
    then show ?thesis
      using assms(5) by (auto simp: mismatch_def)
  next
    case False
    have "dest_key prefix rel_key \<notin> fst ` set to_upload"
    proof
      assume "dest_key prefix rel_key \<in> fst ` set to_upload"
      then obtain r q where rq: "(r, q) \<in> set files" "mismatch fs prefix remote_etags (r, q)"
        and k: "dest_key prefix r = dest_key prefix rel_key"
        unfolding plan by auto
      have "(r, q) = (rel_key, p)"
        using distinct_map_eq [OF assms(4) rq(1) f] k by simp
      then show False using rq(2) False by simp
    qed
    then have "remote_etags' (dest_key prefix rel_key) = remote_etags (dest_key prefix rel_key)"
      using assms(6) by blast
    then show ?thesis
      using False by (simp add: mismatch_def)
  qed
  then have "filter (mismatch fs prefix remote_etags') files = []"
    by (auto simp: filter_empty_conv)
  then have "fst (plan_loop fs prefix verbose' remote_etags' files [] out0') = Inr []"
    using plan_loop_readable [OF readable, of prefix verbose' remote_etags' "[]" out0'] by simp
  then show ?thesis
    using assms(3) by (simp add: plan_uploads_def)
qed

lemma second_run_plans_nothing_example:
  "plan_uploads (Dir [(''a.txt'', File [0x61, 0x62, 0x63]), (''new.txt'', File [])]) (aws_lists [])
      [(''a.txt'', [''a.txt'']), (''new.txt'', [''new.txt''])] ''bkt'' ''pre'' False
     = (Inr [(''pre/a.txt'', [''a.txt''])], [Run (list_cmd ''bkt'' ''pre'')])
   \<and> fst (plan_uploads (Dir [(''a.txt'', File [0x61, 0x62, 0x63]), (''new.txt'', File [])])
          (aws_lists [(''pre/a.txt'', CHR 0x22 # ''900150983cd24fb0d6963f7d28e17f72'' @ [CHR 0x22])])
          [(''a.txt'', [''a.txt'']), (''new.txt'', [''new.txt''])] ''bkt'' ''pre'' False)
     = Inr []"
proof -
  let ?fs = "Dir [(''a.txt'', File [0x61, 0x62, 0x63]), (''new.txt'', File [])]"
  let ?files = "[(''a.txt'', [''a.txt'']), (''new.txt'', [''new.txt''])]"
  let ?aws' = "aws_lists [(''pre/a.txt'', CHR 0x22 # ''900150983cd24fb0d6963f7d28e17f72'' @ [CHR 0x22])]"
  have a: "get_local_etag ?fs [''a.txt''] default_chunk_size = Inr (Some ''900150983cd24fb0d6963f7d28e17f72'')"
    using get_local_etag_single [of ?fs "[''a.txt'']" "[0x61, 0x62, 0x63]" default_chunk_size]
    by (simp add: open_rb_def default_chunk_size_def md5_abc_vector)
  have n: "get_local_etag ?fs [''new.txt''] default_chunk_size = Inr None"
    by (rule get_local_etag_empty) (simp add: open_rb_def)
  have k: "dest_key ''pre'' ''a.txt'' = ''pre/a.txt''" "dest_key ''pre'' ''new.txt'' = ''pre/new.txt''"
    by (simp_all add: dest_key_def lstrip_def)
  have p: "plan_uploads ?fs (aws_lists []) ?files ''bkt'' ''pre'' False
      = (Inr [(''pre/a.txt'', [''a.txt''])], [Run (list_cmd ''bkt'' ''pre'')])"
    by (simp add: plan_uploads_def get_remote_etags_aws_lists a n k Let_def)
  have r: "get_remote_etags (aws_lists []) ''bkt'' ''pre'' = (Inr Map.empty, [Run (list_cmd ''bkt'' ''pre'')])"
    by (simp add: get_remote_etags_aws_lists)
  have r': "get_remote_etags ?aws' ''bkt'' ''pre''
      = (Inr [''pre/a.txt'' \<mapsto> ''900150983cd24fb0d6963f7d28e17f72''], [Run (list_cmd ''bkt'' ''pre'')])"
    by (simp add: get_remote_etags_aws_lists strip_def lstrip_def)
  have dk: "distinct (map (\<lambda>(rel_key, p). dest_key ''pre'' rel_key) ?files)"
    by (simp add: k)
  have up: "\<forall>(key, p) \<in> set [(''pre/a.txt'', [''a.txt''])].
      \<exists>etag. [''pre/a.txt'' \<mapsto> ''900150983cd24fb0d6963f7d28e17f72''] key = Some etag
        \<and> get_local_etag ?fs p default_chunk_size = Inr (Some etag)"
    by (simp add: a)
  have st: "\<forall>key. key \<notin> fst ` set [(''pre/a.txt'', [''a.txt''])]
      \<longrightarrow> [''pre/a.txt'' \<mapsto> ''900150983cd24fb0d6963f7d28e17f72''] key = Map.empty key"
    by simp
  show ?thesis
    using second_run_plans_nothing [OF p r r' dk up st, of False] p by simp
qed

text \<open>
  Claim C9, at an input where the code departs from it. The local file \<open>e.txt\<close> has
  zero bytes and the bucket holds an older object under its key: the first run plans its
  upload. After the upload the bucket lists the key with the fingerprint of the empty
  object; the fingerprint computed locally is \<open>None\<close>, so the second run, on unchanged
  sources, plans the same upload again.
\<close>

theorem second_run_plans_empty_file_again:
  "fst (plan_uploads (Dir [(''e.txt'', File [])]) (aws_lists [(''e.txt'', ''0cc175b9c0f1b6a831c399e269772661'')])
          [(''e.txt'', [''e.txt''])] ''bkt'' [] False)
     = Inr [(''e.txt'', [''e.txt''])]
   \<and> fst (plan_uploads (Dir [(''e.txt'', File [])]) (aws_lists [(''e.txt'', ''d41d8cd98f00b204e9800998ecf8427e'')])
          [(''e.txt'', [''e.txt''])] ''bkt'' [] False)
     = Inr [(''e.txt'', [''e.txt''])]"
proof -
  have e: "get_local_etag (Dir [(''e.txt'', File [])]) [''e.txt''] default_chunk_size = Inr None"
    by (rule get_local_etag_empty) (simp add: open_rb_def)
  show ?thesis
    by (simp add: plan_uploads_def get_remote_etags_aws_lists e dest_key_def lstrip_def strip_def Let_def)
qed

section \<open>The tree walker\<close>

lemma is_excluded_iff:
  "is_excluded fnmatch rel_key excludes \<longleftrightarrow> (\<exists>pattern \<in> set excludes. fnmatch rel_key pattern)"
  by (induction excludes) auto

lemma startswith_append: "startswith (s @ r) (s @ d) \<longleftrightarrow> startswith r d"
  by (simp add: startswith_def)

lemma startswith_snoc:
  assumes "startswith (r @ [x]) d"
  shows "startswith r d \<or> d = r @ [x]"
proof (cases "length d \<le> length r")
  case True
  then show ?thesis using assms by (simp add: startswith_def)
next
  case False
  then have "take (length d) (r @ [x]) = r @ [x]" by simp
  then show ?thesis using assms by (simp add: startswith_def)
qed

lemma os_walk_kept:
  "(root', dirs, fnames) \<in> set (os_walk keep root node) \<Longrightarrow>
   \<exists>r. root' = root @ r \<and> (\<forall>i<length r. keep (root @ take i r) (r ! i))"
proof (induction keep root node arbitrary: root' dirs fnames rule: os_walk.induct)
  case (1 keep root es)
  from "1.prems" consider "root' = root"
    | d n where "(d, n) \<in> set es" and "is_dir n \<and> keep root d"
        and "(root', dirs, fnames) \<in> set (os_walk keep (root @ [d]) n)"
    by (auto split: if_splits)
  then show ?case
  proof cases
    case 1
    then show ?thesis by (intro exI [of _ "[]"]) simp
  next
    case 2
    from "1.IH" [OF 2(1) refl 2(2) 2(3)] obtain r where r: "root' = (root @ [d]) @ r"
      and k: "\<forall>i<length r. keep ((root @ [d]) @ take i r) (r ! i)"
      by blast
    have "keep (root @ take i (d # r)) ((d # r) ! i)" if "i < length (d # r)" for i
    proof (cases i)
      case 0
      then show ?thesis using 2(2) by simp
    next
      case (Suc j)
      then show ?thesis using k that by simp
    qed
    then show ?thesis
      using r by (intro exI [of _ "d # r"]) simp
  qed
qed simp_all

lemma discover_files_dir:
  assumes "lookup fs source_path = Some (Dir es)"
    and "(rel_key, p) \<in> set (discover_files fnmatch fs source_path excludes)"
  shows "\<exists>root dirs fnames fname.
           (root, dirs, fnames) \<in> set (os_walk
              (\<lambda>root d. \<not> is_excluded fnmatch (rel_key_of source_path (root @ [d])) excludes)
              source_path (Dir es))
         \<and> p = root @ [fname] \<and> rel_key = rel_key_of source_path p
         \<and> \<not> is_excluded fnmatch rel_key excludes"
  using assms by (auto simp: discover_files_def is_file_def Let_def split: if_splits) blast

text \<open>
  Claim C6. In the walk of a directory, let the relative key of a path below the source
  match one of the exclude patterns. Then the walk never visits that path or anything
  below it (a directory is dropped from \<open>dirs\<close> before the walk descends), and no
  yielded file is that path or lies below it. Every yielded entry carries the relative
  key of its path, and that key matches no exclude pattern.
\<close>

theorem excluded_paths_are_pruned:
  assumes "lookup fs source_path = Some (Dir es)"
    and "d \<noteq> []"
    and "\<exists>pattern \<in> set excludes. fnmatch (rel_key_of source_path (source_path @ d)) pattern"
  shows "(\<forall>(root, dirs, fnames) \<in> set (os_walk
              (\<lambda>root d. \<not> is_excluded fnmatch (rel_key_of source_path (root @ [d])) excludes)
              source_path (Dir es)).
            \<not> startswith root (source_path @ d))
       \<and> (\<forall>(rel_key, p) \<in> set (discover_files fnmatch fs source_path excludes).
            \<not> startswith p (source_path @ d)
          \<and> rel_key = rel_key_of source_path p
          \<and> \<not> (\<exists>pattern \<in> set excludes. fnmatch rel_key pattern))"
proof -
  let ?keep = "\<lambda>root d. \<not> is_excluded fnmatch (rel_key_of source_path (root @ [d])) excludes"
  have ex: "is_excluded fnmatch (rel_key_of source_path (source_path @ d)) excludes"
    using assms(3) by (simp add: is_excluded_iff)
  have visited: "\<not> startswith root (source_path @ d)"
    if "(root, dirs, fnames) \<in> set (os_walk ?keep source_path (Dir es))" for root dirs fnames
  proof
    assume s: "startswith root (source_path @ d)"
    from os_walk_kept [OF that] obtain r where r: "root = source_path @ r"
      and k: "\<forall>i<length r. ?keep (source_path @ take i r) (r ! i)"
      by blast
    from s r have t: "take (length d) r = d"
      by (simp add: startswith_def)
    have len: "length d \<le> length r"
    proof (rule ccontr)
      assume "\<not> length d \<le> length r"
      then have "length (take (length d) r) < length d" by simp
      then show False using t by simp
    qed
    define i where "i = length d - 1"
    have i: "i < length r" "Suc i = length d"
      using len assms(2) by (cases d; simp add: i_def)+
    have "take i r @ [r ! i] = d"
      using t i by (simp add: take_Suc_conv_app_nth [symmetric])
    then have "\<not> is_excluded fnmatch (rel_key_of source_path (source_path @ d)) excludes"
      using k i(1) by (metis append.assoc)
    then show False using ex by simp
  qed
  have yielded: "\<not> startswith p (source_path @ d) \<and> rel_key = rel_key_of source_path p
      \<and> \<not> (\<exists>pattern \<in> set excludes. fnmatch rel_key pattern)"
    if "(rel_key, p) \<in> set (discover_files fnmatch fs source_path excludes)" for rel_key p
  proof -
    from discover_files_dir [OF assms(1) that] obtain root dirs fnames fname where
      w: "(root, dirs, fnames) \<in> set (os_walk ?keep source_path (Dir es))"
      and p: "p = root @ [fname]" and rk: "rel_key = rel_key_of source_path p"
      and ne: "\<not> is_excluded fnmatch rel_key excludes"
      by blast
    have "\<not> startswith p (source_path @ d)"
    proof
      assume "startswith p (source_path @ d)"
      then have "startswith root (source_path @ d) \<or> source_path @ d = p"
        using startswith_snoc [of root fname "source_path @ d"] p by auto
      then show False
        using visited [OF w] ex ne rk by auto
    qed
    then show ?thesis
      using rk ne by (simp add: is_excluded_iff)
  qed
  from visited yielded show ?thesis by blast
qed

theorem excluded_paths_are_pruned_witness:
  "lookup (Dir [(''src'', Dir [(''a.txt'', File [0x61]),
                              (''build'', Dir [(''x.o'', File [1]), (''deep'', Dir [(''y.o'', File [2])])]),
                              (''b.log'', File [2]),
                              (''sub'', Dir [(''c.txt'', File [3])])])]) [''src'']
     = Some (Dir [(''a.txt'', File [0x61]),
                  (''build'', Dir [(''x.o'', File [1]), (''deep'', Dir [(''y.o'', File [2])])]),
                  (''b.log'', File [2]),
                  (''sub'', Dir [(''c.txt'', File [3])])])
   \<and> glob_match (rel_key_of [''src''] ([''src''] @ [''build''])) ''build''
   \<and> discover_files glob_match
        (Dir [(''src'', Dir [(''a.txt'', File [0x61]),
                            (''build'', Dir [(''x.o'', File [1]), (''deep'', Dir [(''y.o'', File [2])])]),
                            (''b.log'', File [2]),
                            (''sub'', Dir [(''c.txt'', File [3])])])])
        [''src''] [''build'', ''*.log'']
     = [(''a.txt'', [''src'', ''a.txt'']), (''sub/c.txt'', [''src'', ''sub'', ''c.txt''])]
   \<and> map fst (os_walk
          (\<lambda>root d. \<not> is_excluded glob_match (rel_key_of [''src''] (root @ [d])) [''build'', ''*.log''])
          [''src'']
          (Dir [(''a.txt'', File [0x61]),
                (''build'', Dir [(''x.o'', File [1]), (''deep'', Dir [(''y.o'', File [2])])]),
                (''b.log'', File [2]),
                (''sub'', Dir [(''c.txt'', File [3])])]))
     = [[''src''], [''src'', ''sub'']]
   \<and> \<not> startswith [''src'', ''sub''] ([''src''] @ [''build''])
   \<and> \<not> startswith [''src'', ''sub'', ''c.txt''] ([''src''] @ [''build''])"
proof -
  let ?src = "Dir [(''a.txt'', File [0x61]),
                  (''build'', Dir [(''x.o'', File [1]), (''deep'', Dir [(''y.o'', File [2])])]),
                  (''b.log'', File [2]),
                  (''sub'', Dir [(''c.txt'', File [3])])]"
  let ?fs = "Dir [(''src'', ?src)]"
  let ?keep = "\<lambda>root d. \<not> is_excluded glob_match (rel_key_of [''src''] (root @ [d])) [''build'', ''*.log'']"
  have l: "lookup ?fs [''src''] = Some ?src"
    by simp
  have k: "rel_key_of [''src''] [''src'', ''build''] = ''build''"
    by (simp add: rel_key_of_def relative_to_def path_str_def replace_backslash_def)
  have m: "\<exists>pattern \<in> set [''build'', ''*.log'']. glob_match (rel_key_of [''src''] ([''src''] @ [''build''])) pattern"
    by (simp add: k)
  have w: "os_walk ?keep [''src''] ?src
      = [([''src''], [''build'', ''sub''], [''a.txt'', ''b.log'']), ([''src'', ''sub''], [], [''c.txt''])]"
    by (simp add: rel_key_of_def relative_to_def path_str_def replace_backslash_def)
  have f: "discover_files glob_match ?fs [''src''] [''build'', ''*.log'']
      = [(''a.txt'', [''src'', ''a.txt'']), (''sub/c.txt'', [''src'', ''sub'', ''c.txt''])]"
    unfolding discover_files_def l by (simp add: is_file_def w)
        (simp add: rel_key_of_def relative_to_def path_str_def replace_backslash_def Let_def)
  note pruned = excluded_paths_are_pruned [where fnmatch = glob_match and d = "[''build'']",
      OF l _ m, unfolded w f]
  have n: "\<not> startswith [''src'', ''sub''] ([''src''] @ [''build''])"
    and o: "\<not> startswith [''src'', ''sub'', ''c.txt''] ([''src''] @ [''build''])"
    using pruned by simp_all
  have g: "glob_match (rel_key_of [''src''] ([''src''] @ [''build''])) ''build''"
    by (simp add: k)
  have r: "map fst (os_walk ?keep [''src''] ?src) = [[''src''], [''src'', ''sub'']]"
    unfolding w by simp
  from l g f r n o show ?thesis
    by (intro conjI)
qed

end
